theory Spec2Isabelle
  imports Main
begin

section \<open>The Kubernetes client facade of pkg/client/unversioned/client.go\<close>

subsection \<open>Error values\<close>

text \<open>
  A Go \<open>error\<close> is an interface value.  \<open>IsTimeout\<close> tells three kinds of dynamic type
  apart with its type switch, and the model has one constructor for each:
  \<^item> \<open>UrlError Op URL Err text timeout\<close> is a \<open>*url.Error\<close>: its three fields, and what the
    methods of \<open>net/url\<close> give on it.  \<open>text\<close> is what its \<open>Error()\<close> returns; \<open>timeout\<close> is
    \<open>None\<close> when the \<open>*url.Error\<close> is not a \<open>net.Error\<close> and \<open>Some t\<close> when it is one whose
    \<open>Timeout()\<close> returns \<open>t\<close>.  Both are decided by the library, which is not part of this
    repository and has changed over its releases (the type got its \<open>Timeout\<close> method, and
    the text got a quoted URL), so the model takes them with the value and fixes neither.
    The pointer and the wrapped \<open>Err\<close> are not nil, as \<open>net/http\<close> builds them;
  \<^item> \<open>NetError s t\<close> is any other value that implements \<open>net.Error\<close>: \<open>s\<close> is what its
    \<open>Error()\<close> returns and \<open>t\<close> what its \<open>Timeout()\<close> returns;
  \<^item> \<open>OtherError s\<close> is a value of any other type, with the text of its \<open>Error()\<close>.
  The nil error is \<open>None\<close> of \<open>error option\<close>.
\<close>

datatype error =
    UrlError string string error string "bool option"
  | NetError string bool
  | OtherError string

text \<open>\<open>err.Error()\<close>.\<close>

fun Error :: "error \<Rightarrow> string" where
  "Error (UrlError op url err text timeout) = text"
| "Error (NetError s t) = s"
| "Error (OtherError s) = s"

text \<open>
  The type assertion \<open>e.(net.Error)\<close>: \<open>Some t\<close> when the value implements \<open>net.Error\<close>,
  \<open>t\<close> being the result of its \<open>Timeout()\<close>, and \<open>None\<close> when the assertion fails.
\<close>

fun net_Error :: "error \<Rightarrow> bool option" where
  "net_Error (NetError s t) = Some t"
| "net_Error (UrlError op url err text timeout) = timeout"
| "net_Error (OtherError s) = None"

text \<open>
  \<open>strings.Contains(s, substr)\<close>: \<open>substr\<close> occurs in \<open>s\<close> as a contiguous run of bytes.
\<close>

fun Contains :: "string \<Rightarrow> string \<Rightarrow> bool" where
  "Contains [] substr = (substr = [])"
| "Contains (c # s) substr = (take (length substr) (c # s) = substr \<or> Contains s substr)"

text \<open>
  \<open>fmt.Errorf("got '%s': %v", string(body), err)\<close>: a fresh error value that is neither a
  \<open>*url.Error\<close> nor a \<open>net.Error\<close>; \<open>%v\<close> prints \<open>err.Error()\<close>.
\<close>

definition Errorf_got :: "string \<Rightarrow> error \<Rightarrow> error" where
  "Errorf_got body err = OtherError (''got '' @ [CHR 0x27] @ body @ [CHR 0x27] @ '': '' @ Error err)"

subsection \<open>The timeout classifier\<close>

text \<open>
  The type switch of \<open>IsTimeout\<close>: \<open>Some t\<close> when one of its arms returns \<open>t\<close>, \<open>None\<close> when
  control leaves the switch (no arm matched, or the \<open>*url.Error\<close> arm found that the wrapped
  error is not a \<open>net.Error\<close>).  The arms are tried in the order of the source: a
  \<open>*url.Error\<close> takes the first arm, also when it is a \<open>net.Error\<close> itself.
\<close>

fun IsTimeout_switch :: "error \<Rightarrow> bool option" where
  "IsTimeout_switch (UrlError op url inner text timeout) =
     (case net_Error inner of Some t \<Rightarrow> Some t | None \<Rightarrow> None)"
| "IsTimeout_switch (NetError s t) = Some t"
| "IsTimeout_switch (OtherError s) = None"

fun IsTimeout :: "error option \<Rightarrow> bool" where
  "IsTimeout None = False"
| "IsTimeout (Some err) =
     (case IsTimeout_switch err of
        Some t \<Rightarrow> t
      | None \<Rightarrow>
          if Contains (Error err) ''use of closed network connection'' then True else False)"

subsection \<open>Requests and the transport executor\<close>

text \<open>
  Modelled from the spec: the request builder of \<open>RESTClient\<close> (\<open>Get\<close>, \<open>AbsPath\<close>,
  \<open>UnversionedPath\<close>) is not in src/.  The spec describes it as "start a GET", "set an
  absolute path (one or more path segments)" and "optionally target the unversioned root",
  so a request is the verb and the path call made on it, with the segments as passed.
\<close>

datatype target = Abs "string list" | Unversioned string

record Request =
  verb :: string
  target :: "target option"

definition Get :: Request where
  "Get = \<lparr>verb = ''GET'', target = None\<rparr>"

definition AbsPath :: "string list \<Rightarrow> Request \<Rightarrow> Request" where
  "AbsPath segments r = r\<lparr>target := Some (Abs segments)\<rparr>"

definition UnversionedPath :: "string \<Rightarrow> Request \<Rightarrow> Request" where
  "UnversionedPath p r = r\<lparr>target := Some (Unversioned p)\<rparr>"

text \<open>
  The executor (\<open>Do().Raw()\<close>, \<open>DoRaw()\<close>) talks to the server: it is a parameter of every
  operation, a function from the request and the state of the world \<open>'w\<close> to the raw body
  or an error, and the new state of the world.  \<open>json.Unmarshal\<close> into a fresh value is a
  parameter as well, a function from the body to the decoded value or the parse error.
\<close>

type_synonym 'w executor = "Request \<Rightarrow> 'w \<Rightarrow> (error + string) \<times> 'w"

type_synonym 'a decoder = "string \<Rightarrow> error + 'a"

subsection \<open>Discovery and component validation\<close>

definition ServerVersion :: "'w executor \<Rightarrow> 'info decoder \<Rightarrow> 'w \<Rightarrow> (error + 'info) \<times> 'w" where
  "ServerVersion Raw Unmarshal w =
     (case Raw (AbsPath [''/version''] Get) w of
        (Inl err, w') \<Rightarrow> (Inl err, w')
      | (Inr body, w') \<Rightarrow>
          (case Unmarshal body of
             Inl err \<Rightarrow> (Inl (Errorf_got body err), w')
           | Inr info \<Rightarrow> (Inr info, w')))"

definition SupportedResourcesForGroupVersion ::
  "'w executor \<Rightarrow> 'r decoder \<Rightarrow> string \<Rightarrow> 'w \<Rightarrow> (error + 'r) \<times> 'w" where
  "SupportedResourcesForGroupVersion Raw Unmarshal groupVersion w =
     (let prefix = (if groupVersion = ''v1'' then ''/api'' else ''/apis'') in
      case Raw (AbsPath [prefix, groupVersion] Get) w of
        (Inl err, w') \<Rightarrow> (Inl err, w')
      | (Inr body, w') \<Rightarrow>
          (case Unmarshal body of
             Inl err \<Rightarrow> (Inl err, w')
           | Inr resources \<Rightarrow> (Inr resources, w')))"

text \<open>
  The loop of \<open>SupportedResources\<close> over the listed group-versions; \<open>result\<close> is the Go map
  built so far, and \<open>c\<close> is the method \<open>SupportedResourcesForGroupVersion\<close> of the
  \<open>Interface\<close> value passed in.
\<close>

fun SupportedResources_loop ::
  "(string \<Rightarrow> 'w \<Rightarrow> (error + 'r) \<times> 'w) \<Rightarrow> string list \<Rightarrow> (string \<rightharpoonup> 'r) \<Rightarrow> 'w
    \<Rightarrow> (error + (string \<rightharpoonup> 'r)) \<times> 'w" where
  "SupportedResources_loop c [] result w = (Inr result, w)"
| "SupportedResources_loop c (groupVersion # rest) result w =
     (case c groupVersion w of
        (Inl err, w') \<Rightarrow> (Inl err, w')
      | (Inr resources, w') \<Rightarrow>
          SupportedResources_loop c rest (result(groupVersion \<mapsto> resources)) w')"

text \<open>
  \<open>SupportedResources(c, cfg)\<close>.  The package-level function \<open>ServerAPIVersions(cfg)\<close> that
  lists the group-versions is not in src/ and is the parameter \<open>serverAPIVersions\<close>.
\<close>

definition SupportedResources ::
  "(string \<Rightarrow> 'w \<Rightarrow> (error + 'r) \<times> 'w) \<Rightarrow> ('cfg \<Rightarrow> 'w \<Rightarrow> (error + string list) \<times> 'w) \<Rightarrow> 'cfg \<Rightarrow> 'w
    \<Rightarrow> (error + (string \<rightharpoonup> 'r)) \<times> 'w" where
  "SupportedResources c serverAPIVersions cfg w =
     (case serverAPIVersions cfg w of
        (Inl err, w') \<Rightarrow> (Inl err, w')
      | (Inr apis, w') \<Rightarrow> SupportedResources_loop c apis Map.empty w')"

definition ServerAPIVersions :: "'w executor \<Rightarrow> 'v decoder \<Rightarrow> 'w \<Rightarrow> (error + 'v) \<times> 'w" where
  "ServerAPIVersions Raw Unmarshal w =
     (case Raw (UnversionedPath '''' Get) w of
        (Inl err, w') \<Rightarrow> (Inl err, w')
      | (Inr body, w') \<Rightarrow>
          (case Unmarshal body of
             Inl err \<Rightarrow> (Inl (Errorf_got body err), w')
           | Inr v \<Rightarrow> (Inr v, w')))"

text \<open>
  \<open>api.ComponentStatusList\<close> is declared outside src/; \<open>ValidateComponents\<close> sets its
  \<open>Items\<close> and leaves its metadata at the zero value.
\<close>

record 'cs ComponentStatusList =
  Items :: "'cs list"

definition ValidateComponents ::
  "'w executor \<Rightarrow> ('cs list) decoder \<Rightarrow> 'w \<Rightarrow> (error + 'cs ComponentStatusList) \<times> 'w" where
  "ValidateComponents DoRaw Unmarshal w =
     (case DoRaw (AbsPath [''/validate''] Get) w of
        (Inl err, w') \<Rightarrow> (Inl err, w')
      | (Inr body, w') \<Rightarrow>
          (case Unmarshal body of
             Inl err \<Rightarrow> (Inl (Errorf_got body err), w')
           | Inr statuses \<Rightarrow> (Inr \<lparr>Items = statuses\<rparr>, w')))"

subsection \<open>Observing the calls an operation makes\<close>

text \<open>
  \<open>recording Raw\<close> is the executor \<open>Raw\<close> with a log: it behaves as \<open>Raw\<close> does and appends
  every request it is given to the log kept beside the state of the world.
\<close>

definition recording :: "'w executor \<Rightarrow> (Request list \<times> 'w) executor" where
  "recording Raw req lw =
     (case Raw req (snd lw) of (res, w') \<Rightarrow> (res, (fst lw @ [req], w')))"

text \<open>
  \<open>fetches c gvs w\<close> is the sequence of fetch outcomes for a listing: what \<open>c\<close> returns for
  each group-version of \<open>gvs\<close> when called on them in list order from the state \<open>w\<close>.
\<close>

fun fetches ::
  "(string \<Rightarrow> 'w \<Rightarrow> (error + 'r) \<times> 'w) \<Rightarrow> string list \<Rightarrow> 'w \<Rightarrow> (string \<times> (error + 'r)) list" where
  "fetches c [] w = []"
| "fetches c (g # gs) w = (g, fst (c g w)) # fetches c gs (snd (c g w))"

subsection \<open>The facade and its accessors\<close>

text \<open>
  Pointers are addresses into a store of objects, \<open>None\<close> being nil.  The store also holds
  the state of the world the transport talks to.  \<open>Client\<close> embeds two pointers.
\<close>

type_synonym ptr = "nat option"

record Client =
  RESTClient :: ptr
  ExtensionsClient :: ptr

datatype subclient =
    replicationControllers | nodes | events | endpoints | pods | podTemplates | services
  | limitRanges | resourceQuotas | serviceAccounts | secrets | namespaces
  | persistentVolumes | persistentVolumeClaims | componentStatuses

text \<open>
  An object of the store: a \<open>Client\<close>, a sub-client of some resource type holding the
  \<open>*Client\<close> it is bound to and its namespace (\<open>None\<close> for a cluster-scoped one), or any
  other object (a \<open>RESTClient\<close>, an \<open>ExtensionsClient\<close>), whose content plays no part here.
\<close>

datatype object =
    ClientObj Client
  | SubClient subclient ptr "string option"
  | Opaque

record 'w store =
  heap :: "object list"
  world :: 'w

definition load :: "'w store \<Rightarrow> ptr \<Rightarrow> object option" where
  "load s p = (case p of None \<Rightarrow> None
               | Some a \<Rightarrow> if a < length (heap s) then Some (heap s ! a) else None)"

definition alloc :: "object \<Rightarrow> 'w store \<Rightarrow> ptr \<times> 'w store" where
  "alloc obj s = (Some (length (heap s)), s\<lparr>heap := heap s @ [obj]\<rparr>)"

text \<open>
  Modelled from the spec: the constructors \<open>newReplicationControllers\<close>, \<open>newNodes\<close>, ...,
  \<open>newComponentStatuses\<close> that the accessors call are not in src/.  The spec says of every
  accessor that it "is a pure construction call: given a namespace (where applicable), it
  returns a new sub-client value bound to the facade's transport and that namespace", and
  that it does no I/O and cannot fail.  So each constructor allocates one new object that
  holds the \<open>*Client\<close> and the namespace, and does nothing else.
\<close>

definition newReplicationControllers :: "ptr \<Rightarrow> string \<Rightarrow> 'w store \<Rightarrow> ptr \<times> 'w store" where
  "newReplicationControllers c namespace = alloc (SubClient replicationControllers c (Some namespace))"

definition newNodes :: "ptr \<Rightarrow> 'w store \<Rightarrow> ptr \<times> 'w store" where
  "newNodes c = alloc (SubClient nodes c None)"

definition newEvents :: "ptr \<Rightarrow> string \<Rightarrow> 'w store \<Rightarrow> ptr \<times> 'w store" where
  "newEvents c namespace = alloc (SubClient events c (Some namespace))"

definition newEndpoints :: "ptr \<Rightarrow> string \<Rightarrow> 'w store \<Rightarrow> ptr \<times> 'w store" where
  "newEndpoints c namespace = alloc (SubClient endpoints c (Some namespace))"

definition newPods :: "ptr \<Rightarrow> string \<Rightarrow> 'w store \<Rightarrow> ptr \<times> 'w store" where
  "newPods c namespace = alloc (SubClient pods c (Some namespace))"

definition newPodTemplates :: "ptr \<Rightarrow> string \<Rightarrow> 'w store \<Rightarrow> ptr \<times> 'w store" where
  "newPodTemplates c namespace = alloc (SubClient podTemplates c (Some namespace))"

definition newServices :: "ptr \<Rightarrow> string \<Rightarrow> 'w store \<Rightarrow> ptr \<times> 'w store" where
  "newServices c namespace = alloc (SubClient services c (Some namespace))"

definition newLimitRanges :: "ptr \<Rightarrow> string \<Rightarrow> 'w store \<Rightarrow> ptr \<times> 'w store" where
  "newLimitRanges c namespace = alloc (SubClient limitRanges c (Some namespace))"

definition newResourceQuotas :: "ptr \<Rightarrow> string \<Rightarrow> 'w store \<Rightarrow> ptr \<times> 'w store" where
  "newResourceQuotas c namespace = alloc (SubClient resourceQuotas c (Some namespace))"

definition newServiceAccounts :: "ptr \<Rightarrow> string \<Rightarrow> 'w store \<Rightarrow> ptr \<times> 'w store" where
  "newServiceAccounts c namespace = alloc (SubClient serviceAccounts c (Some namespace))"

definition newSecrets :: "ptr \<Rightarrow> string \<Rightarrow> 'w store \<Rightarrow> ptr \<times> 'w store" where
  "newSecrets c namespace = alloc (SubClient secrets c (Some namespace))"

definition newNamespaces :: "ptr \<Rightarrow> 'w store \<Rightarrow> ptr \<times> 'w store" where
  "newNamespaces c = alloc (SubClient namespaces c None)"

definition newPersistentVolumes :: "ptr \<Rightarrow> 'w store \<Rightarrow> ptr \<times> 'w store" where
  "newPersistentVolumes c = alloc (SubClient persistentVolumes c None)"

definition newPersistentVolumeClaims :: "ptr \<Rightarrow> string \<Rightarrow> 'w store \<Rightarrow> ptr \<times> 'w store" where
  "newPersistentVolumeClaims c namespace =
     alloc (SubClient persistentVolumeClaims c (Some namespace))"

definition newComponentStatuses :: "ptr \<Rightarrow> 'w store \<Rightarrow> ptr \<times> 'w store" where
  "newComponentStatuses c = alloc (SubClient componentStatuses c None)"

text \<open>The accessors of \<open>*Client\<close>, as in the source: each one calls its constructor.\<close>

definition ReplicationControllers :: "ptr \<Rightarrow> string \<Rightarrow> 'w store \<Rightarrow> ptr \<times> 'w store" where
  "ReplicationControllers c namespace = newReplicationControllers c namespace"

definition Nodes :: "ptr \<Rightarrow> 'w store \<Rightarrow> ptr \<times> 'w store" where
  "Nodes c = newNodes c"

definition Events :: "ptr \<Rightarrow> string \<Rightarrow> 'w store \<Rightarrow> ptr \<times> 'w store" where
  "Events c namespace = newEvents c namespace"

definition Endpoints :: "ptr \<Rightarrow> string \<Rightarrow> 'w store \<Rightarrow> ptr \<times> 'w store" where
  "Endpoints c namespace = newEndpoints c namespace"

definition Pods :: "ptr \<Rightarrow> string \<Rightarrow> 'w store \<Rightarrow> ptr \<times> 'w store" where
  "Pods c namespace = newPods c namespace"

definition PodTemplates :: "ptr \<Rightarrow> string \<Rightarrow> 'w store \<Rightarrow> ptr \<times> 'w store" where
  "PodTemplates c namespace = newPodTemplates c namespace"

definition Services :: "ptr \<Rightarrow> string \<Rightarrow> 'w store \<Rightarrow> ptr \<times> 'w store" where
  "Services c namespace = newServices c namespace"

definition LimitRanges :: "ptr \<Rightarrow> string \<Rightarrow> 'w store \<Rightarrow> ptr \<times> 'w store" where
  "LimitRanges c namespace = newLimitRanges c namespace"

definition ResourceQuotas :: "ptr \<Rightarrow> string \<Rightarrow> 'w store \<Rightarrow> ptr \<times> 'w store" where
  "ResourceQuotas c namespace = newResourceQuotas c namespace"

definition ServiceAccounts :: "ptr \<Rightarrow> string \<Rightarrow> 'w store \<Rightarrow> ptr \<times> 'w store" where
  "ServiceAccounts c namespace = newServiceAccounts c namespace"

definition Secrets :: "ptr \<Rightarrow> string \<Rightarrow> 'w store \<Rightarrow> ptr \<times> 'w store" where
  "Secrets c namespace = newSecrets c namespace"

definition Namespaces :: "ptr \<Rightarrow> 'w store \<Rightarrow> ptr \<times> 'w store" where
  "Namespaces c = newNamespaces c"

definition PersistentVolumes :: "ptr \<Rightarrow> 'w store \<Rightarrow> ptr \<times> 'w store" where
  "PersistentVolumes c = newPersistentVolumes c"

definition PersistentVolumeClaims :: "ptr \<Rightarrow> string \<Rightarrow> 'w store \<Rightarrow> ptr \<times> 'w store" where
  "PersistentVolumeClaims c namespace = newPersistentVolumeClaims c namespace"

definition ComponentStatuses :: "ptr \<Rightarrow> 'w store \<Rightarrow> ptr \<times> 'w store" where
  "ComponentStatuses c = newComponentStatuses c"

text \<open>
  The accessors that take a namespace, and the cluster-scoped ones, in the order of the
  source.
\<close>

definition namespaced_accessors :: "(ptr \<Rightarrow> string \<Rightarrow> 'w store \<Rightarrow> ptr \<times> 'w store) list" where
  "namespaced_accessors =
     [ReplicationControllers, Events, Endpoints, Pods, PodTemplates, Services, LimitRanges,
      ResourceQuotas, ServiceAccounts, Secrets, PersistentVolumeClaims]"

definition cluster_accessors :: "(ptr \<Rightarrow> 'w store \<Rightarrow> ptr \<times> 'w store) list" where
  "cluster_accessors = [Nodes, Namespaces, PersistentVolumes, ComponentStatuses]"

text \<open>
  \<open>Extensions()\<close> reads the field \<open>ExtensionsClient\<close> of the receiver.  Reading through a
  pointer that holds no \<open>Client\<close> panics: the result is \<open>None\<close>.
\<close>

definition Extensions :: "ptr \<Rightarrow> 'w store \<Rightarrow> (ptr \<times> 'w store) option" where
  "Extensions c s =
     (case load s c of
        Some (ClientObj cl) \<Rightarrow> Some (ExtensionsClient cl, s)
      | _ \<Rightarrow> None)"

section \<open>Properties\<close>

subsection \<open>Substrings and error texts\<close>

lemma take_eq_iff_prefix: "take (length sub) s = sub \<longleftrightarrow> (\<exists>post. s = sub @ post)"
  by (metis append_eq_conv_conj append_take_drop_id)

text \<open>
  \<open>Contains\<close> is the substring test: the text splits into a part before the substring,
  the substring and a part after it.
\<close>

lemma Contains_iff: "Contains s sub \<longleftrightarrow> (\<exists>pre post. s = pre @ sub @ post)"
proof (induction s)
  case Nil
  then show ?case by auto
next
  case (Cons c s)
  show ?case
  proof
    assume "Contains (c # s) sub"
    then consider "take (length sub) (c # s) = sub" | "Contains s sub" by auto
    then show "\<exists>pre post. c # s = pre @ sub @ post"
    proof cases
      case 1
      then obtain post where "c # s = sub @ post" using take_eq_iff_prefix by metis
      then have "c # s = [] @ sub @ post" by simp
      then show ?thesis by blast
    next
      case 2
      then obtain pre post where "s = pre @ sub @ post" using Cons.IH by blast
      then have "c # s = (c # pre) @ sub @ post" by simp
      then show ?thesis by blast
    qed
  next
    assume "\<exists>pre post. c # s = pre @ sub @ post"
    then obtain pre post where eq: "c # s = pre @ sub @ post" by blast
    show "Contains (c # s) sub"
    proof (cases pre)
      case Nil
      with eq have "take (length sub) (c # s) = sub" using take_eq_iff_prefix by (metis append_Nil)
      then show ?thesis by simp
    next
      case (Cons a pre')
      with eq have "s = pre' @ sub @ post" by simp
      then have "Contains s sub" using Cons.IH by blast
      then show ?thesis by simp
    qed
  qed
qed

lemma Errorf_got_text:
  "Error (Errorf_got body err) = ''got '' @ [CHR 0x27] @ body @ [CHR 0x27] @ '': '' @ Error err"
  by (simp add: Errorf_got_def)

lemma Errorf_got_wraps:
  "Contains (Error (Errorf_got body err)) body \<and> Contains (Error (Errorf_got body err)) (Error err)"
proof
  have "Error (Errorf_got body err) = (''got '' @ [CHR 0x27]) @ body @ ([CHR 0x27] @ '': '' @ Error err)"
    by (simp add: Errorf_got_def)
  then show "Contains (Error (Errorf_got body err)) body"
    unfolding Contains_iff by blast
  have "Error (Errorf_got body err) = (''got '' @ [CHR 0x27] @ body @ [CHR 0x27] @ '': '') @ Error err @ []"
    by (simp add: Errorf_got_def)
  then show "Contains (Error (Errorf_got body err)) (Error err)"
    unfolding Contains_iff by blast
qed

lemma ServerVersion_decode_error:
  assumes "Raw (AbsPath [''/version''] Get) w = (Inr body, w')" and "Unmarshal body = Inl perr"
  shows "ServerVersion Raw Unmarshal w = (Inl (Errorf_got body perr), w')"
  using assms by (simp add: ServerVersion_def)

lemma ServerAPIVersions_decode_error:
  assumes "Raw (UnversionedPath '''' Get) w = (Inr body, w')" and "Unmarshal body = Inl perr"
  shows "ServerAPIVersions Raw Unmarshal w = (Inl (Errorf_got body perr), w')"
  using assms by (simp add: ServerAPIVersions_def)

lemma ValidateComponents_decode_error:
  assumes "DoRaw (AbsPath [''/validate''] Get) w = (Inr body, w')" and "Unmarshal body = Inl perr"
  shows "ValidateComponents DoRaw Unmarshal w = (Inl (Errorf_got body perr), w')"
  using assms by (simp add: ValidateComponents_def)

lemma SupportedResourcesForGroupVersion_decode_error:
  assumes "Raw (AbsPath [if g = ''v1'' then ''/api'' else ''/apis'', g] Get) w = (Inr body, w')"
    and "Unmarshal body = Inl perr"
  shows "SupportedResourcesForGroupVersion Raw Unmarshal g w = (Inl perr, w')"
  using assms by (simp add: SupportedResourcesForGroupVersion_def)

subsection \<open>The timeout classifier\<close>

text \<open>
  Claim C7.  \<open>IsTimeout\<close> applied to the nil error returns false.
\<close>

theorem IsTimeout_nil: "IsTimeout None = False"
  by simp




text \<open>
  Claim C6.  An error carries no structured timeout signal when it is not a \<open>net.Error\<close>
  and, if it is a \<open>*url.Error\<close>, the error it wraps is not a \<open>net.Error\<close> either.  For every
  such non-nil error \<open>IsTimeout\<close> is true if and only if the text of \<open>err.Error()\<close> contains
  "use of closed network connection".
\<close>

theorem IsTimeout_fallback:
  assumes "net_Error e = None"
    and "\<forall>op url inner text timeout.
           e = UrlError op url inner text timeout \<longrightarrow> net_Error inner = None"
  shows "IsTimeout (Some e) \<longleftrightarrow>
           (\<exists>pre post. Error e = pre @ ''use of closed network connection'' @ post)"
proof -
  have "IsTimeout_switch e = None"
    using assms by (cases e) auto
  then have "IsTimeout (Some e) = Contains (Error e) ''use of closed network connection''"
    by simp
  then show ?thesis by (simp only: Contains_iff)
qed

theorem IsTimeout_fallback_witness:
  "net_Error (OtherError ''read tcp 10.0.0.1:443: use of closed network connection'') = None \<and>
   IsTimeout (Some (OtherError ''read tcp 10.0.0.1:443: use of closed network connection'')) \<and>
   (\<exists>pre post. Error (OtherError ''read tcp 10.0.0.1:443: use of closed network connection'')
        = pre @ ''use of closed network connection'' @ post)"
  using IsTimeout_fallback [of "OtherError ''read tcp 10.0.0.1:443: use of closed network connection''"]
  by simp

text \<open>
  The same at an error whose text does not hold the phrase, and at a \<open>*url.Error\<close> that is
  not a \<open>net.Error\<close> around such an error: \<open>IsTimeout\<close> is false.
\<close>

lemma IsTimeout_fallback_negative:
  "\<not> IsTimeout (Some (OtherError ''unexpected EOF'')) \<and>
   \<not> IsTimeout (Some (UrlError ''Get'' ''http://h/api'' (OtherError ''unexpected EOF'')
        ''Get http://h/api: unexpected EOF'' None))"
  by simp

subsection \<open>Decoding failures\<close>

text \<open>
  Claim C2.  The claim says that all four operations wrap a parse failure together with
  the raw body.  \<open>ServerVersion\<close>, \<open>ServerAPIVersions\<close> and \<open>ValidateComponents\<close> do (the
  three lemmas above, with \<open>Errorf_got_wraps\<close>).  \<open>SupportedResourcesForGroupVersion\<close> returns
  the parse failure as it is: when the server answers the request for \<open>v1\<close> with the body
  \<open>not json\<close>, the error returned is the one of \<open>json.Unmarshal\<close> and its text does not hold
  the body, where \<open>ServerVersion\<close> on the same answer returns
  \<open>got 'not json': invalid character\<close>.
\<close>

theorem SupportedResourcesForGroupVersion_decode_error_lacks_body:
  "SupportedResourcesForGroupVersion
     (\<lambda>req w. (Inr ''not json'', w))
     (\<lambda>body. (Inl (OtherError ''invalid character'') :: error + unit)) ''v1'' ()
   = (Inl (OtherError ''invalid character''), ())
   \<and> \<not> Contains (Error (OtherError ''invalid character'')) ''not json''
   \<and> ServerVersion
     (\<lambda>req w. (Inr ''not json'', w))
     (\<lambda>body. (Inl (OtherError ''invalid character'') :: error + unit)) ()
   = (Inl (OtherError (''got '' @ [CHR 0x27] @ ''not json'' @ [CHR 0x27] @ '': invalid character'')), ())"
  by (simp add: SupportedResourcesForGroupVersion_def ServerVersion_def Errorf_got_def)

subsection \<open>The request of a group-version\<close>

text \<open>
  Claim C3.  For every group-version string \<open>g\<close>, \<open>SupportedResourcesForGroupVersion\<close> gives
  the executor exactly one request, a GET whose path segments are a prefix and \<open>g\<close>; the
  prefix is \<open>/api\<close> exactly when \<open>g\<close> is the literal \<open>v1\<close> and \<open>/apis\<close> for every other
  string.
\<close>

theorem SupportedResourcesForGroupVersion_request:
  "\<exists>prefix.
     fst (snd (SupportedResourcesForGroupVersion (recording Raw) Unmarshal g (log, w))) =
       log @ [\<lparr>verb = ''GET'', target = Some (Abs [prefix, g])\<rparr>] \<and>
     (prefix = ''/api'' \<longleftrightarrow> g = ''v1'') \<and>
     (prefix = ''/apis'' \<longleftrightarrow> g \<noteq> ''v1'')"
proof -
  have "fst (snd (SupportedResourcesForGroupVersion (recording Raw) Unmarshal g (log, w))) =
      log @ [\<lparr>verb = ''GET'',
               target = Some (Abs [if g = ''v1'' then ''/api'' else ''/apis'', g])\<rparr>]"
    by (simp add: SupportedResourcesForGroupVersion_def recording_def AbsPath_def Get_def Let_def
        split: prod.splits sum.splits)
  then show ?thesis
    by (intro exI [of _ "if g = ''v1'' then ''/api'' else ''/apis''"]) simp
qed

subsection \<open>The aggregate catalog\<close>

lemma loop_success:
  assumes "fetches c gvs w = zip gvs (map Inr rs)" and "length rs = length gvs"
  shows "fst (SupportedResources_loop c gvs m w) = Inr (m ++ map_of (rev (zip gvs rs)))"
  using assms
proof (induction gvs arbitrary: m w rs)
  case Nil
  then show ?case by simp
next
  case (Cons g gvs)
  then obtain r rs' where rs: "rs = r # rs'" by (cases rs) auto
  with Cons.prems have out: "fst (c g w) = Inr r"
    and rest: "fetches c gvs (snd (c g w)) = zip gvs (map Inr rs')"
    and len: "length rs' = length gvs" by auto
  from out obtain w' where cg: "c g w = (Inr r, w')" by (cases "c g w") auto
  have "fst (SupportedResources_loop c (g # gvs) m w) =
        fst (SupportedResources_loop c gvs (m(g \<mapsto> r)) w')"
    using cg by simp
  also have "\<dots> = Inr (m(g \<mapsto> r) ++ map_of (rev (zip gvs rs')))"
  proof (rule Cons.IH)
    show "fetches c gvs w' = zip gvs (map Inr rs')" using rest cg by simp
    show "length rs' = length gvs" by (rule len)
  qed
  also have "m(g \<mapsto> r) ++ map_of (rev (zip gvs rs')) = m ++ map_of (rev (zip (g # gvs) rs))"
    by (simp add: rs map_add_upd_left)
  finally show ?case .
qed

lemma loop_success_conv:
  assumes "fst (SupportedResources_loop c gvs m w) = Inr cat"
  shows "\<exists>rs. length rs = length gvs \<and> fetches c gvs w = zip gvs (map Inr rs)"
  using assms
proof (induction gvs arbitrary: m w)
  case Nil
  then show ?case by simp
next
  case (Cons g gvs)
  obtain res w' where cg: "c g w = (res, w')" by (cases "c g w") auto
  show ?case
  proof (cases res)
    case (Inl e)
    with cg Cons.prems show ?thesis by simp
  next
    case (Inr r)
    with cg Cons.prems have "fst (SupportedResources_loop c gvs (m(g \<mapsto> r)) w') = Inr cat" by simp
    from Cons.IH [OF this] obtain rs where "length rs = length gvs"
      and "fetches c gvs w' = zip gvs (map Inr rs)" by blast
    then have "length (r # rs) = length (g # gvs) \<and>
        fetches c (g # gvs) w = zip (g # gvs) (map Inr (r # rs))"
      using cg Inr by simp
    then show ?thesis by blast
  qed
qed

lemma loop_failure:
  assumes "fetches c gvs w = map (\<lambda>(g, r). (g, Inr r)) oks @ (g0, Inl e0) # rest"
  shows "fst (SupportedResources_loop c gvs m w) = Inl e0"
  using assms
proof (induction oks arbitrary: gvs m w)
  case Nil
  then obtain gs where "gvs = g0 # gs" and "fst (c g0 w) = Inl e0" by (cases gvs) auto
  then show ?case by (cases "c g0 w") auto
next
  case (Cons ok oks)
  obtain g r where ok: "ok = (g, r)" by (cases ok)
  with Cons.prems obtain gs where gvs: "gvs = g # gs" and out: "fst (c g w) = Inr r"
    and tl: "fetches c gs (snd (c g w)) = map (\<lambda>(g, r). (g, Inr r)) oks @ (g0, Inl e0) # rest"
    by (cases gvs) auto
  from out obtain w' where cg: "c g w = (Inr r, w')" by (cases "c g w") auto
  have "fetches c gs w' = map (\<lambda>(g, r). (g, Inr r)) oks @ (g0, Inl e0) # rest"
    using tl cg by simp
  then have "fst (SupportedResources_loop c gs (m(g \<mapsto> r)) w') = Inl e0"
    by (rule Cons.IH)
  then show ?case using cg gvs by simp
qed

lemma first_failure:
  assumes "(g, Inl e) \<in> set xs"
  shows "\<exists>oks g0 e0 rest. xs = map (\<lambda>(g, r). (g, Inr r)) oks @ (g0, Inl e0) # rest"
  using assms
proof (induction xs)
  case Nil
  then show ?case by simp
next
  case (Cons x xs)
  obtain h res where x: "x = (h, res)" by (cases x)
  show ?case
  proof (cases res)
    case (Inl e1)
    then have "x # xs = map (\<lambda>(g, r). (g, Inr r)) [] @ (h, Inl e1) # xs" using x by simp
    then show ?thesis by blast
  next
    case (Inr r)
    with Cons.prems x have "(g, Inl e) \<in> set xs" by auto
    from Cons.IH [OF this] obtain oks g0 e0 rest
      where "xs = map (\<lambda>(g, r). (g, Inr r)) oks @ (g0, Inl e0) # rest" by blast
    then have "x # xs = map (\<lambda>(g, r). (g, Inr r)) ((h, r) # oks) @ (g0, Inl e0) # rest"
      using x Inr by simp
    then show ?thesis by blast
  qed
qed

text \<open>
  Claim C1.  \<open>SupportedResources\<close> is all-or-nothing.  Whatever the listing and the
  outcomes of the fetches are, if the fetch of some listed group-version fails, then the
  outcomes are a run of successes followed by a first failure \<open>e0\<close>, and
  \<open>SupportedResources\<close> returns the error \<open>e0\<close> of that failure (the loop stops there, so it
  is the only failing fetch that is made) and no catalog: nothing fetched before the
  failure is returned.
\<close>

theorem SupportedResources_all_or_nothing:
  assumes "serverAPIVersions cfg w = (Inr apis, w1)"
    and "(g, Inl e) \<in> set (fetches c apis w1)"
  shows "\<exists>oks g0 e0 rest.
           fetches c apis w1 = map (\<lambda>(g, r). (g, Inr r)) oks @ (g0, Inl e0) # rest \<and>
           fst (SupportedResources c serverAPIVersions cfg w) = Inl e0 \<and>
           (\<forall>catalog. fst (SupportedResources c serverAPIVersions cfg w) \<noteq> Inr catalog)"
proof -
  from first_failure [OF assms(2)] obtain oks g0 e0 rest
    where tr: "fetches c apis w1 = map (\<lambda>(g, r). (g, Inr r)) oks @ (g0, Inl e0) # rest" by blast
  have "fst (SupportedResources c serverAPIVersions cfg w) = Inl e0"
    using loop_failure [OF tr] assms(1) by (simp add: SupportedResources_def)
  moreover from this
  have "\<forall>catalog. fst (SupportedResources c serverAPIVersions cfg w) \<noteq> Inr catalog" by simp
  ultimately show ?thesis using tr by blast
qed

theorem SupportedResources_all_or_nothing_witness:
  "(\<lambda>cfg w. (Inr [''v1'', ''ext/v1''], w)) () () = (Inr [''v1'', ''ext/v1''], ()) \<and>
   (''ext/v1'', Inl (OtherError ''not found''))
     \<in> set (fetches (\<lambda>g w. (if g = ''ext/v1'' then Inl (OtherError ''not found'') else Inr g, w))
         [''v1'', ''ext/v1''] ()) \<and>
   (\<exists>oks g0 e0 rest.
      fetches (\<lambda>g w. (if g = ''ext/v1'' then Inl (OtherError ''not found'') else Inr g, w))
        [''v1'', ''ext/v1''] () = map (\<lambda>(g, r). (g, Inr r)) oks @ (g0, Inl e0) # rest \<and>
      fst (SupportedResources
        (\<lambda>g w. (if g = ''ext/v1'' then Inl (OtherError ''not found'') else Inr g, w))
        (\<lambda>cfg w. (Inr [''v1'', ''ext/v1''], w)) () ()) = Inl e0 \<and>
      (\<forall>catalog. fst (SupportedResources
        (\<lambda>g w. (if g = ''ext/v1'' then Inl (OtherError ''not found'') else Inr g, w))
        (\<lambda>cfg w. (Inr [''v1'', ''ext/v1''], w)) () ()) \<noteq> Inr catalog)) \<and>
   fst (SupportedResources
        (\<lambda>g w. (if g = ''ext/v1'' then Inl (OtherError ''not found'') else Inr g, w))
        (\<lambda>cfg w. (Inr [''v1'', ''ext/v1''], w)) () ()) = Inl (OtherError ''not found'')"
proof -
  let ?c = "\<lambda>g (w::unit). (if g = ''ext/v1'' then Inl (OtherError ''not found'') else Inr g, w)"
  let ?l = "\<lambda>(cfg::unit) (w::unit). (Inr [''v1'', ''ext/v1''] :: error + string list, w)"
  have h1: "?l () () = (Inr [''v1'', ''ext/v1''], ())" by simp
  have h2: "(''ext/v1'', Inl (OtherError ''not found'')) \<in> set (fetches ?c [''v1'', ''ext/v1''] ())"
    by simp
  have r: "fst (SupportedResources ?c ?l () ()) = Inl (OtherError ''not found'')"
    by (simp add: SupportedResources_def)
  from SupportedResources_all_or_nothing [of ?l "()" "()" "[''v1'', ''ext/v1'']" "()" "''ext/v1''"
      "OtherError ''not found''" ?c, OF h1 h2] h1 h2 r
  show ?thesis by blast
qed

text \<open>
  Claim C4.  When \<open>SupportedResources\<close> returns a catalog, the listing call has returned
  some list \<open>apis\<close>, the fetch of every group-version of \<open>apis\<close> has succeeded, with the
  resource lists \<open>rs\<close> in list order, and the catalog maps each listed group-version to the
  resource list fetched for it (the last one, should the listing name a group-version
  twice).  Its keys are exactly the listed group-versions: none is missing, none is added.
\<close>

theorem SupportedResources_catalog_complete:
  assumes "fst (SupportedResources c serverAPIVersions cfg w) = Inr catalog"
  shows "\<exists>apis w1 rs. serverAPIVersions cfg w = (Inr apis, w1) \<and>
           length rs = length apis \<and>
           fetches c apis w1 = zip apis (map Inr rs) \<and>
           catalog = map_of (rev (zip apis rs)) \<and>
           dom catalog = set apis"
proof -
  obtain res w1 where sv: "serverAPIVersions cfg w = (res, w1)" by (cases "serverAPIVersions cfg w") auto
  show ?thesis
  proof (cases res)
    case (Inl e)
    with sv assms show ?thesis by (simp add: SupportedResources_def)
  next
    case (Inr apis)
    with sv assms have l: "fst (SupportedResources_loop c apis Map.empty w1) = Inr catalog"
      by (simp add: SupportedResources_def)
    from loop_success_conv [OF l] obtain rs where len: "length rs = length apis"
      and tr: "fetches c apis w1 = zip apis (map Inr rs)" by blast
    from loop_success [OF tr len, of Map.empty] l have cat: "catalog = map_of (rev (zip apis rs))"
      by simp
    have "set (map fst (zip apis rs)) = set apis"
      using len by (simp only: map_fst_zip)
    then have "dom catalog = set apis"
      by (simp add: cat dom_map_of_conv_image_fst)
    with sv Inr len tr cat show ?thesis by blast
  qed
qed

theorem SupportedResources_catalog_complete_witness:
  "fst (SupportedResources (\<lambda>g w. (Inr (''pods of '' @ g), w))
        (\<lambda>cfg w. (Inr [''v1'', ''extensions/v1beta1''], w)) () ())
     = Inr [''v1'' \<mapsto> ''pods of v1'', ''extensions/v1beta1'' \<mapsto> ''pods of extensions/v1beta1''] \<and>
   (\<exists>apis w1 rs.
      (\<lambda>cfg w. (Inr [''v1'', ''extensions/v1beta1''], w)) () () = (Inr apis, w1) \<and>
      length rs = length apis \<and>
      fetches (\<lambda>g w. (Inr (''pods of '' @ g), w)) apis w1 = zip apis (map Inr rs) \<and>
      [''v1'' \<mapsto> ''pods of v1'', ''extensions/v1beta1'' \<mapsto> ''pods of extensions/v1beta1''] = map_of (rev (zip apis rs)) \<and>
      dom [''v1'' \<mapsto> ''pods of v1'', ''extensions/v1beta1'' \<mapsto> ''pods of extensions/v1beta1''] = set apis)"
proof -
  let ?c = "\<lambda>g (w::unit). (Inr (''pods of '' @ g) :: error + string, w)"
  let ?l = "\<lambda>(cfg::unit) (w::unit). (Inr [''v1'', ''extensions/v1beta1''] :: error + string list, w)"
  have h: "fst (SupportedResources ?c ?l () ()) = Inr [''v1'' \<mapsto> ''pods of v1'', ''extensions/v1beta1'' \<mapsto> ''pods of extensions/v1beta1'']"
    by (simp add: SupportedResources_def)
  from SupportedResources_catalog_complete [OF h] h show ?thesis by blast
qed

subsection \<open>Component validation\<close>

text \<open>
  Claim C8.  When the answer to the GET of \<open>/validate\<close> is a body that decodes as the
  sequence \<open>statuses\<close> of component-status records, \<open>ValidateComponents\<close> returns a
  \<open>ComponentStatusList\<close> whose \<open>Items\<close> are exactly \<open>statuses\<close>, in the same order.
\<close>

theorem ValidateComponents_items:
  assumes "DoRaw \<lparr>verb = ''GET'', target = Some (Abs [''/validate''])\<rparr> w = (Inr body, w')"
    and "Unmarshal body = Inr statuses"
  shows "\<exists>l. ValidateComponents DoRaw Unmarshal w = (Inr l, w') \<and> Items l = statuses"
  using assms by (simp add: ValidateComponents_def AbsPath_def Get_def)

theorem ValidateComponents_items_witness:
  "(\<lambda>req w. (Inr ''[a,b]'', w)) \<lparr>verb = ''GET'', target = Some (Abs [''/validate''])\<rparr> ()
     = (Inr ''[a,b]'', ()) \<and>
   (\<lambda>body. Inr [''a'', ''b'']) ''[a,b]'' = (Inr [''a'', ''b''] :: error + string list) \<and>
   (\<exists>l. ValidateComponents (\<lambda>req w. (Inr ''[a,b]'', w)) (\<lambda>body. Inr [''a'', ''b'']) ()
          = (Inr l, ()) \<and> Items l = [''a'', ''b''])"
proof -
  let ?x = "\<lambda>(req::Request) (w::unit). (Inr ''[a,b]'' :: error + string, w)"
  let ?u = "\<lambda>body::string. (Inr [''a'', ''b''] :: error + string list)"
  have h1: "?x \<lparr>verb = ''GET'', target = Some (Abs [''/validate''])\<rparr> () = (Inr ''[a,b]'', ())"
    by simp
  have h2: "?u ''[a,b]'' = Inr [''a'', ''b'']" by simp
  from ValidateComponents_items [of ?x "()" "''[a,b]''" "()" ?u "[''a'', ''b'']", OF h1 h2] h1 h2
  show ?thesis by blast
qed

subsection \<open>The accessors\<close>

lemma alloc_fresh:
  assumes "alloc obj s = (p, s')"
  shows "load s p = None" and "load s' p = Some obj" and "world s' = world s"
    and "load s q = Some old \<Longrightarrow> load s' q = Some old"
    and "p = Some (length (heap s))" and "heap s' = heap s @ [obj]"
  using assms by (auto simp: alloc_def load_def nth_append split: option.splits if_splits)

lemma alloc_twice:
  assumes "alloc obj s = (p1, s1)" and "alloc obj s1 = (p2, s2)"
  shows "p1 \<noteq> p2" and "load s2 p1 = Some obj" and "load s2 p2 = Some obj"
    and "world s2 = world s" and "load s q = Some old \<Longrightarrow> load s2 q = Some old"
proof -
  show "p1 \<noteq> p2" using assms alloc_fresh(5,6) [OF assms(1)] alloc_fresh(5) [OF assms(2)] by simp
  show "load s2 p1 = Some obj"
    using alloc_fresh(2) [OF assms(1)] alloc_fresh(4) [OF assms(2)] by blast
  show "load s2 p2 = Some obj" by (rule alloc_fresh(2) [OF assms(2)])
  show "world s2 = world s" using alloc_fresh(3) [OF assms(1)] alloc_fresh(3) [OF assms(2)] by simp
  show "load s q = Some old \<Longrightarrow> load s2 q = Some old"
    using alloc_fresh(4) [OF assms(1)] alloc_fresh(4) [OF assms(2)] by blast
qed

lemma namespaced_accessor_alloc:
  assumes "acc \<in> set namespaced_accessors"
  shows "\<exists>k. acc = (\<lambda>c namespace. alloc (SubClient k c (Some namespace)))"
proof -
  from assms consider "acc = ReplicationControllers" | "acc = Events" | "acc = Endpoints"
    | "acc = Pods" | "acc = PodTemplates" | "acc = Services" | "acc = LimitRanges"
    | "acc = ResourceQuotas" | "acc = ServiceAccounts" | "acc = Secrets"
    | "acc = PersistentVolumeClaims"
    by (auto simp: namespaced_accessors_def)
  then show ?thesis
  proof cases
    case 1 then show ?thesis
      by (intro exI [of _ replicationControllers] ext)
        (simp add: ReplicationControllers_def newReplicationControllers_def)
  next
    case 2 then show ?thesis
      by (intro exI [of _ events] ext) (simp add: Events_def newEvents_def)
  next
    case 3 then show ?thesis
      by (intro exI [of _ endpoints] ext) (simp add: Endpoints_def newEndpoints_def)
  next
    case 4 then show ?thesis
      by (intro exI [of _ pods] ext) (simp add: Pods_def newPods_def)
  next
    case 5 then show ?thesis
      by (intro exI [of _ podTemplates] ext) (simp add: PodTemplates_def newPodTemplates_def)
  next
    case 6 then show ?thesis
      by (intro exI [of _ services] ext) (simp add: Services_def newServices_def)
  next
    case 7 then show ?thesis
      by (intro exI [of _ limitRanges] ext) (simp add: LimitRanges_def newLimitRanges_def)
  next
    case 8 then show ?thesis
      by (intro exI [of _ resourceQuotas] ext) (simp add: ResourceQuotas_def newResourceQuotas_def)
  next
    case 9 then show ?thesis
      by (intro exI [of _ serviceAccounts] ext) (simp add: ServiceAccounts_def newServiceAccounts_def)
  next
    case 10 then show ?thesis
      by (intro exI [of _ secrets] ext) (simp add: Secrets_def newSecrets_def)
  next
    case 11 then show ?thesis
      by (intro exI [of _ persistentVolumeClaims] ext)
        (simp add: PersistentVolumeClaims_def newPersistentVolumeClaims_def)
  qed
qed

lemma cluster_accessor_alloc:
  assumes "acc \<in> set cluster_accessors"
  shows "\<exists>k. acc = (\<lambda>c. alloc (SubClient k c None))"
proof -
  from assms consider "acc = Nodes" | "acc = Namespaces" | "acc = PersistentVolumes"
    | "acc = ComponentStatuses"
    by (auto simp: cluster_accessors_def)
  then show ?thesis
  proof cases
    case 1 then show ?thesis
      by (intro exI [of _ nodes] ext) (simp add: Nodes_def newNodes_def)
  next
    case 2 then show ?thesis
      by (intro exI [of _ namespaces] ext) (simp add: Namespaces_def newNamespaces_def)
  next
    case 3 then show ?thesis
      by (intro exI [of _ persistentVolumes] ext)
        (simp add: PersistentVolumes_def newPersistentVolumes_def)
  next
    case 4 then show ?thesis
      by (intro exI [of _ componentStatuses] ext)
        (simp add: ComponentStatuses_def newComponentStatuses_def)
  qed
qed

text \<open>
  Claim C9.  Every accessor, called twice with the same receiver and namespace, returns
  two distinct new objects (neither was in the store before its call) with the same
  content: a sub-client of the same type bound to the same \<open>*Client\<close>, and to the namespace
  given when the accessor takes one.  The two calls do no I/O (the state of the world is
  the one before the calls) and change no object that was in the store, the \<open>Client\<close>
  included.  An accessor has no error result and always returns.
\<close>

theorem accessors_construct_only:
  assumes "acc \<in> set namespaced_accessors \<union> (\<lambda>f c namespace. f c) ` set cluster_accessors"
    and "acc c namespace s = (p1, s1)"
    and "acc c namespace s1 = (p2, s2)"
  shows "p1 \<noteq> p2 \<and> load s p1 = None \<and> load s1 p2 = None
       \<and> (\<exists>k ns. load s2 p1 = Some (SubClient k c ns) \<and> load s2 p2 = Some (SubClient k c ns)
            \<and> (acc \<in> set namespaced_accessors \<longrightarrow> ns = Some namespace))
       \<and> world s2 = world s
       \<and> (\<forall>q old. load s q = Some old \<longrightarrow> load s2 q = Some old)"
proof -
  have "\<exists>k ns. acc c namespace = alloc (SubClient k c ns)
          \<and> (acc \<in> set namespaced_accessors \<longrightarrow> ns = Some namespace)"
  proof (cases "acc \<in> set namespaced_accessors")
    case True
    from namespaced_accessor_alloc [OF this] show ?thesis by auto
  next
    case False
    with assms(1) obtain f where "f \<in> set cluster_accessors" and "acc = (\<lambda>c namespace. f c)"
      by auto
    with cluster_accessor_alloc [of f] False show ?thesis by auto
  qed
  then obtain k ns where a: "acc c namespace = alloc (SubClient k c ns)"
    and n: "acc \<in> set namespaced_accessors \<longrightarrow> ns = Some namespace" by blast
  have a1: "alloc (SubClient k c ns) s = (p1, s1)" using assms(2) a by simp
  have a2: "alloc (SubClient k c ns) s1 = (p2, s2)" using assms(3) a by simp
  note t = alloc_twice [OF a1 a2]
  have "p1 \<noteq> p2" by (rule t(1))
  moreover have "load s p1 = None" by (rule alloc_fresh(1) [OF a1])
  moreover have "load s1 p2 = None" by (rule alloc_fresh(1) [OF a2])
  moreover have "\<exists>k ns. load s2 p1 = Some (SubClient k c ns) \<and> load s2 p2 = Some (SubClient k c ns)
            \<and> (acc \<in> set namespaced_accessors \<longrightarrow> ns = Some namespace)"
    using t(2,3) n by blast
  moreover have "world s2 = world s" by (rule t(4))
  moreover have "\<forall>q old. load s q = Some old \<longrightarrow> load s2 q = Some old"
    using t(5) by blast
  ultimately show ?thesis by blast
qed

theorem accessors_construct_only_witness:
  "Pods \<in> set namespaced_accessors \<union> (\<lambda>f c namespace. f c) ` set cluster_accessors \<and>
   Pods (Some 0) ''default''
     \<lparr>heap = [ClientObj \<lparr>RESTClient = Some 1, ExtensionsClient = Some 2\<rparr>, Opaque, Opaque],
      world = ()\<rparr>
   = (Some 3,
      \<lparr>heap = [ClientObj \<lparr>RESTClient = Some 1, ExtensionsClient = Some 2\<rparr>, Opaque, Opaque,
               SubClient pods (Some 0) (Some ''default'')],
       world = ()\<rparr>) \<and>
   Pods (Some 0) ''default''
     \<lparr>heap = [ClientObj \<lparr>RESTClient = Some 1, ExtensionsClient = Some 2\<rparr>, Opaque, Opaque,
              SubClient pods (Some 0) (Some ''default'')],
      world = ()\<rparr>
   = (Some 4,
      \<lparr>heap = [ClientObj \<lparr>RESTClient = Some 1, ExtensionsClient = Some 2\<rparr>, Opaque, Opaque,
               SubClient pods (Some 0) (Some ''default''),
               SubClient pods (Some 0) (Some ''default'')],
       world = ()\<rparr>) \<and>
   load \<lparr>heap = [ClientObj \<lparr>RESTClient = Some 1, ExtensionsClient = Some 2\<rparr>, Opaque, Opaque,
               SubClient pods (Some 0) (Some ''default''),
               SubClient pods (Some 0) (Some ''default'')],
         world = ()\<rparr> (Some 3)
   = load \<lparr>heap = [ClientObj \<lparr>RESTClient = Some 1, ExtensionsClient = Some 2\<rparr>, Opaque, Opaque,
               SubClient pods (Some 0) (Some ''default''),
               SubClient pods (Some 0) (Some ''default'')],
         world = ()\<rparr> (Some 4)"
proof -
  let ?s = "\<lparr>heap = [ClientObj \<lparr>RESTClient = Some 1, ExtensionsClient = Some 2\<rparr>, Opaque, Opaque],
      world = ()\<rparr>"
  let ?s1 = "\<lparr>heap = [ClientObj \<lparr>RESTClient = Some 1, ExtensionsClient = Some 2\<rparr>, Opaque, Opaque,
               SubClient pods (Some 0) (Some ''default'')],
       world = ()\<rparr>"
  let ?s2 = "\<lparr>heap = [ClientObj \<lparr>RESTClient = Some 1, ExtensionsClient = Some 2\<rparr>, Opaque, Opaque,
               SubClient pods (Some 0) (Some ''default''),
               SubClient pods (Some 0) (Some ''default'')],
       world = ()\<rparr>"
  have h1: "Pods \<in> set namespaced_accessors \<union> (\<lambda>f c namespace. f c) ` set cluster_accessors"
    by (simp add: namespaced_accessors_def)
  have h2: "Pods (Some 0) ''default'' ?s = (Some 3, ?s1)"
    by (simp add: Pods_def newPods_def alloc_def)
  have h3: "Pods (Some 0) ''default'' ?s1 = (Some 4, ?s2)"
    by (simp add: Pods_def newPods_def alloc_def)
  from accessors_construct_only [OF h1 h2 h3]
  have "load ?s2 (Some 3) = load ?s2 (Some 4)" by auto
  with h1 h2 h3 show ?thesis by blast
qed

text \<open>
  Claim C10.  \<open>Extensions()\<close> on a \<open>Client\<close> returns the pointer stored in its field
  \<open>ExtensionsClient\<close> and the store as it was: nothing is constructed and the \<open>Client\<close> is
  unchanged, so every invocation on the same \<open>Client\<close> returns the same pointer.
\<close>

theorem Extensions_returns_stored_pointer:
  assumes "load s c = Some (ClientObj cl)"
  shows "Extensions c s = Some (ExtensionsClient cl, s)"
  using assms by (simp add: Extensions_def)

theorem Extensions_returns_stored_pointer_witness:
  "load \<lparr>heap = [ClientObj \<lparr>RESTClient = Some 1, ExtensionsClient = Some 2\<rparr>, Opaque, Opaque],
         world = ()\<rparr> (Some 0)
     = Some (ClientObj \<lparr>RESTClient = Some 1, ExtensionsClient = Some 2\<rparr>) \<and>
   Extensions (Some 0)
     \<lparr>heap = [ClientObj \<lparr>RESTClient = Some 1, ExtensionsClient = Some 2\<rparr>, Opaque, Opaque],
      world = ()\<rparr>
   = Some (Some 2,
      \<lparr>heap = [ClientObj \<lparr>RESTClient = Some 1, ExtensionsClient = Some 2\<rparr>, Opaque, Opaque],
       world = ()\<rparr>)"
proof -
  let ?s = "\<lparr>heap = [ClientObj \<lparr>RESTClient = Some 1, ExtensionsClient = Some 2\<rparr>, Opaque, Opaque],
      world = ()\<rparr>"
  have h: "load ?s (Some 0) = Some (ClientObj \<lparr>RESTClient = Some 1, ExtensionsClient = Some 2\<rparr>)"
    by (simp add: load_def)
  from Extensions_returns_stored_pointer [OF h] h show ?thesis by simp
qed

end
